theory Spec2Isabelle
  imports Complex_Main
begin

section \<open>Conventions of the embedding\<close>

text \<open>
  The functions of \<^verbatim>\<open>src/utils/reconstruction.py\<close> are embedded over the real
  numbers: a Python or NumPy float is a \<^typ>\<open>real\<close>, so rounding is outside the model.
  Every exception the source can raise is a value of the type \<open>error\<close>, and a function that
  may raise returns \<open>error + 'a\<close> with the exception on the left.  Where NumPy produces
  \<^verbatim>\<open>inf\<close> or \<^verbatim>\<open>nan\<close> instead of raising (a division of an \<^verbatim>\<open>np.float64\<close> by zero, the
  square root of a negative tensor entry, an exponential beyond the range of a double) the
  model returns \<open>NonFinite\<close>.
  A one-dimensional array is a list, a two-dimensional array a list of rows.
\<close>

datatype error =
    NotImplementedError
  | ZeroDivisionError
  | IndexError
  | ValueError
  | NonFinite

section \<open>Delay schedule: \<^verbatim>\<open>get_delays\<close>\<close>

text \<open>
  \<^verbatim>\<open>np.linspace(start, stop, num)\<close> with the default \<^verbatim>\<open>endpoint=True\<close>: the samples
  \<^verbatim>\<open>arange(num) * step + start\<close> with \<^verbatim>\<open>step = (stop - start) / (num - 1)\<close>, the last one
  overwritten by \<^verbatim>\<open>stop\<close> when \<^verbatim>\<open>num > 1\<close>; a single sample is \<^verbatim>\<open>start\<close>; a negative
  \<^verbatim>\<open>num\<close> raises \<^verbatim>\<open>ValueError\<close>.
\<close>

definition linspace_steps :: "real \<Rightarrow> real \<Rightarrow> nat \<Rightarrow> real list" where
  "linspace_steps start stop num =
     map (\<lambda>i. real i * ((stop - start) / real (num - 1)) + start) [0..<num]"

definition linspace :: "real \<Rightarrow> real \<Rightarrow> int \<Rightarrow> error + real list" where
  "linspace start stop num =
     (if num < 0 then Inl ValueError
      else if num = 0 then Inr []
      else if num = 1 then Inr [start]
      else Inr ((linspace_steps start stop (nat num))[nat num - 1 := stop]))"

text \<open>
  \<^verbatim>\<open>get_delays(R, v0, v1, n_delays, mode)\<close>.  The speeds are Python floats, so
  \<^verbatim>\<open>v0/v1\<close> raises \<^verbatim>\<open>ZeroDivisionError\<close> when \<^verbatim>\<open>v1\<close> is zero; in both supported modes
  that quotient is evaluated before \<^verbatim>\<open>np.linspace\<close> is called.
\<close>

definition get_delays :: "real \<Rightarrow> real \<Rightarrow> real \<Rightarrow> int \<Rightarrow> string \<Rightarrow> error + real list" where
  "get_delays R v0 v1 n_delays mode =
     (if mode = ''uniform'' then
        (if v1 = 0 then Inl ZeroDivisionError
         else linspace ((1 - v0 / v1) * R * 0) ((1 - v0 / v1) * R * (12 / 10)) n_delays)
      else if mode = ''quadric'' then
        (if v1 = 0 then Inl ZeroDivisionError
         else (case linspace 0 1 n_delays of
                 Inl e \<Rightarrow> Inl e
               | Inr ts \<Rightarrow> Inr (map (\<lambda>t. (1 - v0 / v1) * R * sqrt t) ts)))
      else Inl NotImplementedError)"

section \<open>Sequencing of fallible steps\<close>

definition bind_err :: "error + 'a \<Rightarrow> ('a \<Rightarrow> error + 'b) \<Rightarrow> error + 'b" where
  "bind_err m f = (case m of Inl e \<Rightarrow> Inl e | Inr x \<Rightarrow> f x)"

text \<open>A \<^verbatim>\<open>for\<close> loop over a range whose body may raise: the first exception ends it.\<close>

primrec for_each :: "'a list \<Rightarrow> ('a \<Rightarrow> 's \<Rightarrow> error + 's) \<Rightarrow> 's \<Rightarrow> error + 's" where
  "for_each [] body st = Inr st"
| "for_each (x # xs) body st =
     (case body x st of Inl e \<Rightarrow> Inl e | Inr st' \<Rightarrow> for_each xs body st')"

text \<open>
  An argument that is either a scalar or a one-dimensional array (\<^verbatim>\<open>ring_error\<close>), and
  NumPy's broadcasting of an elementwise operation over two one-dimensional arrays.
\<close>

datatype scalar_or_array = Sc real | Arr "real list"

definition broadcast2 ::
  "(real \<Rightarrow> real \<Rightarrow> real) \<Rightarrow> real list \<Rightarrow> real list \<Rightarrow> error + real list" where
  "broadcast2 f xs ys =
     (if length xs = length ys then Inr (map (\<lambda>(x, y). f x y) (zip xs ys))
      else if length ys = 1 then Inr (map (\<lambda>x. f x (hd ys)) xs)
      else if length xs = 1 then Inr (map (\<lambda>y. f (hd xs) y) ys)
      else Inl ValueError)"

section \<open>Beamformer: \<^verbatim>\<open>delay_and_sum\<close>\<close>

text \<open>
  Transducer \<open>k\<close> (counted from 0) sits at angle \<^verbatim>\<open>delta_angle * (k + 1)\<close> with
  \<^verbatim>\<open>delta_angle = 2 * pi / N_transducer\<close>.
\<close>

definition x_transducer :: "real \<Rightarrow> nat \<Rightarrow> nat \<Rightarrow> real" where
  "x_transducer R_ring N k = R_ring * sin (2 * pi / real N * (real k + 1) - pi)"

definition y_transducer :: "real \<Rightarrow> nat \<Rightarrow> nat \<Rightarrow> real" where
  "y_transducer R_ring N k = R_ring * cos (2 * pi / real N * (real k + 1) - pi)"

text \<open>
  Line 68: the array, over all transducers, of the distance to the grid point \<open>(x, y)\<close>,
  minus \<^verbatim>\<open>d_delay\<close>, plus \<^verbatim>\<open>ring_error\<close> (broadcast when it is an array).
\<close>

definition distance_to_transducer ::
  "real \<Rightarrow> nat \<Rightarrow> real \<Rightarrow> real \<Rightarrow> real \<Rightarrow> scalar_or_array \<Rightarrow> error + real list" where
  "distance_to_transducer R_ring N x y d_delay ring_error =
     (let base = map (\<lambda>k. sqrt ((x_transducer R_ring N k - x)\<^sup>2 + (y_transducer R_ring N k - y)\<^sup>2)
                          - d_delay) [0..<N]
      in case ring_error of
           Sc e \<Rightarrow> Inr (map (\<lambda>d. d + e) base)
         | Arr es \<Rightarrow> broadcast2 (+) base es)"

text \<open>
  The sinogram \<^verbatim>\<open>pa_signal\<close> is a list of rows, one per transducer, all of one length;
  \<^verbatim>\<open>pa_signal.shape[1]\<close> is that length.
\<close>

definition shape1 :: "real list list \<Rightarrow> nat" where
  "shape1 a = (case a of [] \<Rightarrow> 0 | row # _ \<Rightarrow> length row)"

definition rectangular :: "real list list \<Rightarrow> bool" where
  "rectangular a = list_all (\<lambda>row. length row = shape1 a) a"

text \<open>
  \<^verbatim>\<open>delay_and_sum\<close> is compiled by \<^verbatim>\<open>@numba.jit(nopython=True)\<close> (line 39), which checks
  no array bounds: an access \<^verbatim>\<open>a[i, j]\<close> goes to place \<open>i * a.shape[1] + j\<close> of the array's
  row-major buffer, and a place past the end of the buffer is the memory that follows
  it.  What that memory holds is a parameter of the model: \<open>beyond b i\<close> is the float found
  \<open>i\<close> places after the end of the buffer \<open>b\<close>.
\<close>

datatype buffer = PaSignal | Distances

definition read1 :: "(buffer \<Rightarrow> nat \<Rightarrow> real) \<Rightarrow> real list \<Rightarrow> nat \<Rightarrow> real" where
  "read1 beyond a k = (if k < length a then a ! k else beyond Distances (k - length a))"

definition read2 :: "(buffer \<Rightarrow> nat \<Rightarrow> real) \<Rightarrow> real list list \<Rightarrow> nat \<Rightarrow> nat \<Rightarrow> real" where
  "read2 beyond a k j =
     (let place = k * shape1 a + j in
      if place < length (concat a) then concat a ! place
      else beyond PaSignal (place - length (concat a)))"

text \<open>
  \<^verbatim>\<open>Image\<close> is kept as its buffer, of \<open>len(x_vec) * len(y_vec)\<close> floats with rows of length
  \<open>W = len(y_vec)\<close>.  A write past the end of the buffer changes memory that is not part of
  the image: it leaves every pixel as it was.
\<close>

definition write2 :: "real list \<Rightarrow> nat \<Rightarrow> nat \<Rightarrow> nat \<Rightarrow> real \<Rightarrow> real list" where
  "write2 buf W t s v = (if t * W + s < length buf then buf[t * W + s := v] else buf)"

definition rows_of :: "nat \<Rightarrow> nat \<Rightarrow> real list \<Rightarrow> real list list" where
  "rows_of H W buf = map (\<lambda>i. take W (drop (i * W) buf)) [0..<H]"

text \<open>
  Lines 70 to 74, the contribution of transducer \<open>k\<close>: the sample index
  \<^verbatim>\<open>id = math.floor(distance_to_transducer[k] / (v0 * T_sample))\<close> and the guarded read.
\<close>

definition sample_index :: "real \<Rightarrow> real \<Rightarrow> real \<Rightarrow> int" where
  "sample_index d v0 T_sample = \<lfloor>d / (v0 * T_sample)\<rfloor>"

definition contribution ::
  "(buffer \<Rightarrow> nat \<Rightarrow> real) \<Rightarrow> real \<Rightarrow> real \<Rightarrow> real list list \<Rightarrow> real list \<Rightarrow> nat
     \<Rightarrow> error + real" where
  "contribution beyond T_sample v0 pa_signal dists k =
     (if v0 * T_sample = 0 then Inl ZeroDivisionError
      else (let id = sample_index (read1 beyond dists k) v0 T_sample in
            if id > 0 \<and> id \<le> int (shape1 pa_signal)
            then Inr (read2 beyond pa_signal k (nat id))
            else Inr 0))"

definition mean :: "real list \<Rightarrow> real" where
  "mean xs = sum_list xs / real (length xs)"

text \<open>
  The body of the two nested loops for the pixel \<open>(s, t)\<close>; the state is the pair of
  the buffer of \<^verbatim>\<open>Image\<close> and the array \<^verbatim>\<open>related_data\<close>, both updated in place by the
  source.
\<close>

definition pixel_step ::
  "(buffer \<Rightarrow> nat \<Rightarrow> real) \<Rightarrow> real \<Rightarrow> real \<Rightarrow> real \<Rightarrow> real list list \<Rightarrow> real list \<Rightarrow> real list
     \<Rightarrow> real \<Rightarrow> scalar_or_array \<Rightarrow> nat \<Rightarrow> nat \<Rightarrow> real list \<times> real list
     \<Rightarrow> error + real list \<times> real list" where
  "pixel_step beyond R_ring T_sample v0 pa_signal x_vec y_vec d_delay ring_error s t st =
     bind_err (distance_to_transducer R_ring (length pa_signal) (x_vec ! s) (y_vec ! t)
                 d_delay ring_error) (\<lambda>dists.
     bind_err (for_each [0..<length pa_signal]
                 (\<lambda>k rd. bind_err (contribution beyond T_sample v0 pa_signal dists k)
                            (\<lambda>v. Inr (rd[k := v])))
                 (snd st)) (\<lambda>rd.
     Inr (write2 (fst st) (length y_vec) t s (mean rd), rd)))"

definition delay_and_sum ::
  "(buffer \<Rightarrow> nat \<Rightarrow> real) \<Rightarrow> real \<Rightarrow> real \<Rightarrow> real \<Rightarrow> real list list \<Rightarrow> real list \<Rightarrow> real list
     \<Rightarrow> real \<Rightarrow> scalar_or_array \<Rightarrow> error + real list list" where
  "delay_and_sum beyond R_ring T_sample v0 pa_signal x_vec y_vec d_delay ring_error =
     (let H = length x_vec; W = length y_vec; N_transducer = length pa_signal;
          Image = replicate (length x_vec * length y_vec) 0
      in if N_transducer = 0 then Inl ZeroDivisionError
         else bind_err
                (for_each [0..<H]
                   (\<lambda>s. for_each [0..<W]
                          (pixel_step beyond R_ring T_sample v0 pa_signal x_vec y_vec d_delay
                             ring_error s))
                   (Image, replicate N_transducer 0))
                (\<lambda>st. Inr (rows_of (length x_vec) (length y_vec) (fst st))))"

text \<open>A sinogram all of whose samples are zero.\<close>

definition zero_signal :: "real list list \<Rightarrow> bool" where
  "zero_signal a = list_all (list_all (\<lambda>v. v = 0)) a"

section \<open>Wavefront model and coordinate mapper\<close>

text \<open>
  \<^verbatim>\<open>get_r_C0(i, j, R, l, v0, v1)\<close>: \<open>i\<close> and \<open>j\<close> are grid indices.  \<^verbatim>\<open>v0/v1\<close> is a quotient of
  Python floats and raises on a zero \<^verbatim>\<open>v1\<close>; \<open>r\<close> comes from \<^verbatim>\<open>np.sqrt\<close>, so with \<^verbatim>\<open>R = 0\<close>
  the quotient by \<^verbatim>\<open>4*R**2\<close> does not raise and the product is \<^verbatim>\<open>nan\<close>.
\<close>

definition get_r_C0 :: "int \<Rightarrow> int \<Rightarrow> real \<Rightarrow> real \<Rightarrow> real \<Rightarrow> real \<Rightarrow> error + real \<times> real" where
  "get_r_C0 i j R l v0 v1 =
     (let x = real_of_int (j - 12) * l / 4; y = real_of_int (12 - i) * l / 4;
          r = sqrt (x\<^sup>2 + y\<^sup>2)
      in if v1 = 0 then Inl ZeroDivisionError
         else if R = 0 then Inl NonFinite
         else Inr (r, max 0 ((1 - v0 / v1) * R * (1 - r\<^sup>2 / (4 * R\<^sup>2)))))"

text \<open>\<^verbatim>\<open>get_fourier_params(r, phi, R, v0, v1)\<close> on Python floats.\<close>

definition get_fourier_params ::
  "real \<Rightarrow> real \<Rightarrow> real \<Rightarrow> real \<Rightarrow> real \<Rightarrow> error + real \<times> real \<times> real \<times> real \<times> real" where
  "get_fourier_params r phi R v0 v1 =
     (if v1 = 0 \<or> R = 0 then Inl ZeroDivisionError
      else Inr ((1 - v0 / v1) * R * (1 - r\<^sup>2 / (4 * R\<^sup>2)),
                (1 - v0 / v1) * r,
                phi,
                (1 - v0 / v1) * r\<^sup>2 / (4 * R),
                phi))"

definition wavefront_fourier :: "real \<Rightarrow> real \<Rightarrow> real \<Rightarrow> real \<Rightarrow> real \<Rightarrow> real \<Rightarrow> real" where
  "wavefront_fourier C0 C1 phi1 C2 phi2 =
     (\<lambda>theta. C0 + C1 * cos (theta - phi1) + C2 * cos (2 * (theta - phi2)))"

text \<open>
  \<^verbatim>\<open>wavefront_real\<close> returns a closure; \<^verbatim>\<open>v0/v1\<close> is evaluated when the closure is
  called.  \<^verbatim>\<open>torch.sqrt\<close> of a negative entry is \<^verbatim>\<open>nan\<close>; the comparison
  \<^verbatim>\<open>torch.cos(phi-theta) >= 0\<close> multiplies as 0 or 1.
\<close>

definition torch_sqrt :: "real \<Rightarrow> error + real" where
  "torch_sqrt a = (if a < 0 then Inl NonFinite else Inr (sqrt a))"

definition wavefront_real :: "real \<Rightarrow> real \<Rightarrow> real \<Rightarrow> real \<Rightarrow> real \<Rightarrow> real \<Rightarrow> error + real" where
  "wavefront_real R r phi v0 v1 =
     (if r < R then
        (\<lambda>theta. if v1 = 0 then Inl ZeroDivisionError
                 else bind_err (torch_sqrt (R\<^sup>2 - (r * sin (theta - phi))\<^sup>2))
                        (\<lambda>q. Inr ((1 - v0 / v1) * (q + r * cos (theta - phi)))))
      else
        (\<lambda>theta. if v1 = 0 then Inl ZeroDivisionError
                 else bind_err (torch_sqrt (max (R\<^sup>2 - (r * sin (theta - phi))\<^sup>2) 0))
                        (\<lambda>q. Inr ((1 - v0 / v1) * 2 * q
                                   * (if cos (phi - theta) \<ge> 0 then 1 else 0)))))"

section \<open>Weight combiner: \<^verbatim>\<open>get_weights\<close>\<close>

text \<open>
  \<^verbatim>\<open>C0\<close> is documented as a float; the claims also speak of a per-pixel field of shape
  \<open>[H, W]\<close>, so both are arguments of the model.  A weight array is three-dimensional:
  delay, row, column.
\<close>

datatype c0_arg = Scalar real | Field "real list list"

definition map3 :: "(real \<Rightarrow> real) \<Rightarrow> real list list list \<Rightarrow> real list list list" where
  "map3 f w = map (map (map f)) w"

text \<open>\<^verbatim>\<open>.sum()\<close> without an axis: the sum of all entries.\<close>

definition sum3 :: "real list list list \<Rightarrow> real" where
  "sum3 w = sum_list (map (\<lambda>plane. sum_list (map sum_list plane)) w)"

text \<open>\<^verbatim>\<open>np.argmin\<close>: one pass, keeping the first index of the smallest value seen.\<close>

primrec argmin_from :: "real list \<Rightarrow> nat \<Rightarrow> nat \<Rightarrow> real \<Rightarrow> nat" where
  "argmin_from [] i best v = best"
| "argmin_from (x # xs) i best v =
     (if x < v then argmin_from xs (Suc i) i x else argmin_from xs (Suc i) best v)"

definition argmin :: "real list \<Rightarrow> error + nat" where
  "argmin xs = (case xs of [] \<Rightarrow> Inl ValueError | x # rest \<Rightarrow> Inr (argmin_from rest 1 0 x))"

text \<open>
  Line 167, \<^verbatim>\<open>(delays.reshape([n_delays,1,1]) - C0) ** 2\<close>: shape \<open>[n, 1, 1]\<close> for a scalar,
  \<open>[n, H, W]\<close> for a field.
\<close>

definition euclidean_distance :: "c0_arg \<Rightarrow> real list \<Rightarrow> real list list list" where
  "euclidean_distance C0 delays =
     (case C0 of
        Scalar c \<Rightarrow> map (\<lambda>d. [[(d - c)\<^sup>2]]) delays
      | Field f \<Rightarrow> map (\<lambda>d. map (map (\<lambda>c. (d - c)\<^sup>2)) f) delays)"

text \<open>
  Line 168: \<^verbatim>\<open>np.exp\<close> of an entry whose exponential is beyond the largest finite double is
  \<^verbatim>\<open>inf\<close>, and so is a sum that grows beyond it; either way \<^verbatim>\<open>np.exp(distance).sum()\<close> is
  \<^verbatim>\<open>inf\<close>, the quotients of line 168 are 0 or \<^verbatim>\<open>nan\<close>, and every weight that line 169 returns
  is \<^verbatim>\<open>nan\<close>.  The exponentials are positive, so this happens when their sum exceeds
  \<open>float_max\<close>, the largest finite double \<open>(2 - 2^-52) * 2^1023\<close>.
\<close>

definition float_max :: real where
  "float_max = 2 ^ 1024 - 2 ^ 971"

text \<open>
  Line 172, \<^verbatim>\<open>np.abs(delays - C0)\<close> flattened as \<^verbatim>\<open>np.argmin\<close> reads it: for a field the
  delays are broadcast against every row.
\<close>

definition abs_differences :: "c0_arg \<Rightarrow> real list \<Rightarrow> error + real list" where
  "abs_differences C0 delays =
     (case C0 of
        Scalar c \<Rightarrow> Inr (map (\<lambda>d. \<bar>d - c\<bar>) delays)
      | Field f \<Rightarrow>
          bind_err (for_each f
                      (\<lambda>row acc. bind_err (broadcast2 (\<lambda>d c. \<bar>d - c\<bar>) delays row)
                                    (\<lambda>ds. Inr (acc @ ds))) [])
            Inr)"

definition get_weights :: "c0_arg \<Rightarrow> real list \<Rightarrow> string \<Rightarrow> error + real list list list" where
  "get_weights C0 delays attention =
     (let n_delays = length delays in
      if attention = ''uniform'' then Inr (replicate n_delays [[1]])
      else if attention = ''euclidean'' then
        (let distance = euclidean_distance C0 delays in
         if float_max < sum3 (map3 exp distance) then Inl NonFinite
         else (let weights = map3 (\<lambda>e. e / sum3 (map3 exp distance)) (map3 exp distance)
               in Inr (map3 (\<lambda>w. w / sum3 weights * real n_delays) weights)))
      else if attention = ''onehot'' then
        (let weights = replicate n_delays [[0]] in
         bind_err (abs_differences C0 delays) (\<lambda>ds.
         bind_err (argmin ds) (\<lambda>idx.
           if idx < n_delays then Inr (weights[idx := [[1]]]) else Inl IndexError)))
      else Inl NotImplementedError)"

text \<open>The sum of the weights along the delay axis at the pixel \<open>(i, j)\<close>.\<close>

definition delay_axis_sum :: "real list list list \<Rightarrow> nat \<Rightarrow> nat \<Rightarrow> real" where
  "delay_axis_sum w i j = sum_list (map (\<lambda>plane. plane ! i ! j) w)"

section \<open>Facts about \<^verbatim>\<open>np.linspace\<close>\<close>

lemma length_linspace_steps: "length (linspace_steps a b n) = n"
  by (simp add: linspace_steps_def)

lemma nth_linspace_steps:
  "i < n \<Longrightarrow> linspace_steps a b n ! i = real i * ((b - a) / real (n - 1)) + a"
  by (simp add: linspace_steps_def)

lemma linspace_steps_last:
  assumes "2 \<le> n"
  shows "linspace_steps a b n ! (n - 1) = b"
proof -
  have "real (n - 1) \<noteq> 0" using assms by simp
  then have "real (n - 1) * ((b - a) / real (n - 1)) = b - a" by simp
  then show ?thesis using assms by (simp add: nth_linspace_steps)
qed

lemma linspace_endpoint_noop:
  assumes "2 \<le> n"
  shows "(linspace_steps a b n)[n - 1 := b] = linspace_steps a b n"
  using linspace_steps_last [OF assms, of a b] by (metis list_update_id)

lemma linspace_many:
  assumes "2 \<le> n"
  shows "linspace a b n = Inr (linspace_steps a b (nat n))"
proof -
  have "2 \<le> nat n" using assms by simp
  then have "(linspace_steps a b (nat n))[nat n - 1 := b] = linspace_steps a b (nat n)"
    by (rule linspace_endpoint_noop)
  then show ?thesis using assms by (simp add: linspace_def)
qed

lemma sorted_linspace_steps:
  assumes "a \<le> b"
  shows "sorted (linspace_steps a b n)"
proof -
  have step: "0 \<le> (b - a) / real (n - 1)" using assms by simp
  have "linspace_steps a b n ! i \<le> linspace_steps a b n ! j" if "i \<le> j" "j < n" for i j
  proof -
    have "real i * ((b - a) / real (n - 1)) \<le> real j * ((b - a) / real (n - 1))"
      using that step by (intro mult_right_mono) simp_all
    then show ?thesis using that by (simp add: nth_linspace_steps)
  qed
  then show ?thesis
    by (simp add: sorted_iff_nth_mono length_linspace_steps)
qed

section \<open>Claims about the delay schedule\<close>

text \<open>
  C5, as amended.  For every \<open>R \<ge> 0\<close>, every \<open>0 < v0 < v1\<close> and every \<open>n_delays \<ge> 2\<close>,
  \<^verbatim>\<open>get_delays(R, v0, v1, n_delays, mode='uniform')\<close> returns exactly \<open>n_delays\<close> values,
  sorted ascending, the first equal to 0 and the last equal to \<open>1.2 * (1 - v0/v1) * R\<close>.
\<close>

theorem get_delays_uniform:
  assumes "0 \<le> R" and "0 < v0" and "v0 < v1" and "2 \<le> n"
  shows "\<exists>ds. get_delays R v0 v1 n ''uniform'' = Inr ds \<and> length ds = nat n \<and> sorted ds
            \<and> ds ! 0 = 0 \<and> last ds = 12 / 10 * (1 - v0 / v1) * R"
proof -
  let ?b = "(1 - v0 / v1) * R * (12 / 10)"
  let ?ds = "linspace_steps 0 ?b (nat n)"
  have v1: "v1 \<noteq> 0" and c: "0 \<le> 1 - v0 / v1" using assms by simp_all
  have n2: "2 \<le> nat n" using assms by simp
  have res: "get_delays R v0 v1 n ''uniform'' = Inr ?ds"
    using v1 linspace_many [OF assms(4), of 0 ?b] by (simp add: get_delays_def)
  have b: "0 \<le> ?b" using c assms(1) by simp
  have len: "length ?ds = nat n" by (rule length_linspace_steps)
  have srt: "sorted ?ds" using b by (rule sorted_linspace_steps)
  have first: "?ds ! 0 = 0" using n2 by (simp add: nth_linspace_steps)
  have "?ds \<noteq> []" using len n2 by auto
  then have "last ?ds = ?ds ! (nat n - 1)" using len by (simp add: last_conv_nth)
  also have "\<dots> = ?b" using n2 by (rule linspace_steps_last)
  finally have lst: "last ?ds = 12 / 10 * (1 - v0 / v1) * R" by simp
  show ?thesis using res len srt first lst by blast
qed

theorem get_delays_uniform_witness:
  "\<exists>ds. get_delays 1 1 2 3 ''uniform'' = Inr ds \<and> length ds = 3 \<and> sorted ds
            \<and> ds ! 0 = 0 \<and> last ds = 3 / 5"
  using get_delays_uniform [of 1 1 2 3] by simp

text \<open>
  C5 as stated quantifies over every \<open>R\<close>.  With \<open>R = -1\<close>, \<open>v0 = 1\<close>, \<open>v1 = 2\<close> and two
  delays the schedule is \<open>[0, -0.6]\<close>, which descends.
\<close>

theorem get_delays_uniform_negative_radius:
  "get_delays (- 1) 1 2 2 ''uniform'' = Inr [0, - (3 / 5)] \<and> \<not> sorted [0, - (3 / 5) :: real]"
  by (simp add: get_delays_def linspace_def linspace_steps_def upt_rec [of 0] upt_rec [of "Suc 0"])

text \<open>
  C6.  For every \<open>R > 0\<close>, every \<open>0 < v0 < v1\<close> and every \<open>n_delays \<ge> 2\<close>, the schedule of
  mode \<^verbatim>\<open>'quadric'\<close> has \<open>n_delays\<close> entries, and entry \<open>i\<close>, divided by \<open>(1 - v0/v1) * R\<close>
  and squared, is \<open>i / (n_delays - 1)\<close>: the uniform grid from 0 to 1.
\<close>

theorem get_delays_quadric:
  assumes "0 < R" and "0 < v0" and "v0 < v1" and "2 \<le> n"
  shows "\<exists>ds. get_delays R v0 v1 n ''quadric'' = Inr ds \<and> length ds = nat n
            \<and> (\<forall>i < nat n. (ds ! i / ((1 - v0 / v1) * R))\<^sup>2 = real i / real (nat n - 1))"
proof -
  let ?c = "(1 - v0 / v1) * R"
  let ?ts = "linspace_steps 0 1 (nat n)"
  let ?ds = "map (\<lambda>t. (1 - v0 / v1) * R * sqrt t) ?ts"
  have v1: "v1 \<noteq> 0" using assms by simp
  have "0 < 1 - v0 / v1" using assms by simp
  then have "0 < ?c" using assms(1) by (rule mult_pos_pos)
  then have c: "?c \<noteq> 0" by (metis less_irrefl)
  have res: "get_delays R v0 v1 n ''quadric'' = Inr ?ds"
    using v1 linspace_many [OF assms(4), of 0 1] by (simp add: get_delays_def)
  have len: "length ?ds = nat n" by (simp add: length_linspace_steps)
  have pt: "(?ds ! i / ?c)\<^sup>2 = real i / real (nat n - 1)" if "i < nat n" for i
  proof -
    have t: "?ts ! i = real i / real (nat n - 1)" using that by (simp add: nth_linspace_steps)
    then have t0: "0 \<le> ?ts ! i" by simp
    have "?ds ! i = ?c * sqrt (?ts ! i)" using that by (simp add: length_linspace_steps)
    then have "?ds ! i / ?c = sqrt (?ts ! i)" using c by simp
    then have "(?ds ! i / ?c)\<^sup>2 = ?ts ! i" using t0 by simp
    then show ?thesis using t by simp
  qed
  show ?thesis using res len pt by blast
qed

theorem get_delays_quadric_witness:
  "\<exists>ds. get_delays 1 1 2 3 ''quadric'' = Inr ds \<and> length ds = 3
            \<and> (\<forall>i < 3. (ds ! i / (1 / 2))\<^sup>2 = real i / 2)"
  using get_delays_quadric [of 1 1 2 3] by simp

section \<open>Unsupported selectors\<close>

lemma linspace_not_unsupported: "linspace a b n \<noteq> Inl NotImplementedError"
  by (simp add: linspace_def)

lemma for_each_error:
  assumes "for_each xs body st = Inl e"
  shows "\<exists>x st'. body x st' = Inl e"
  using assms
proof (induction xs arbitrary: st)
  case Nil
  then show ?case by simp
next
  case (Cons x xs)
  then show ?case by (cases "body x st") auto
qed

lemma broadcast2_error: "broadcast2 f xs ys = Inl e \<Longrightarrow> e = ValueError"
  by (auto simp: broadcast2_def split: if_splits)

lemma abs_differences_error: "abs_differences C0 delays = Inl e \<Longrightarrow> e = ValueError"
proof (cases C0)
  case (Scalar c)
  assume "abs_differences C0 delays = Inl e"
  then show ?thesis using Scalar by (simp add: abs_differences_def)
next
  case (Field f)
  assume "abs_differences C0 delays = Inl e"
  then have "for_each f (\<lambda>row acc. bind_err (broadcast2 (\<lambda>d c. \<bar>d - c\<bar>) delays row)
                                    (\<lambda>ds. Inr (acc @ ds))) [] = Inl e"
    using Field by (simp add: abs_differences_def bind_err_def split: sum.splits)
  then obtain row acc where "bind_err (broadcast2 (\<lambda>d c. \<bar>d - c\<bar>) delays row)
                                    (\<lambda>ds. Inr (acc @ ds)) = Inl e"
    using for_each_error by fastforce
  then show ?thesis by (auto simp: bind_err_def split: sum.splits dest: broadcast2_error)
qed

lemma argmin_error: "argmin xs = Inl e \<Longrightarrow> e = ValueError"
  by (auto simp: argmin_def split: list.splits)

text \<open>
  C7.  \<^verbatim>\<open>get_delays\<close> raises \<^verbatim>\<open>NotImplementedError\<close> exactly when the mode is neither
  \<^verbatim>\<open>'uniform'\<close> nor \<^verbatim>\<open>'quadric'\<close>, and \<^verbatim>\<open>get_weights\<close> raises it exactly when the attention is
  none of \<^verbatim>\<open>'uniform'\<close>, \<^verbatim>\<open>'onehot'\<close>, \<^verbatim>\<open>'euclidean'\<close>; a raise returns no value.
\<close>

theorem unsupported_selector:
  "(get_delays R v0 v1 n mode = Inl NotImplementedError
      \<longleftrightarrow> mode \<noteq> ''uniform'' \<and> mode \<noteq> ''quadric'')
   \<and> (get_weights C0 delays attention = Inl NotImplementedError
      \<longleftrightarrow> attention \<noteq> ''uniform'' \<and> attention \<noteq> ''onehot'' \<and> attention \<noteq> ''euclidean'')"
proof
  show "get_delays R v0 v1 n mode = Inl NotImplementedError
      \<longleftrightarrow> mode \<noteq> ''uniform'' \<and> mode \<noteq> ''quadric''"
    using linspace_not_unsupported
    by (auto simp: get_delays_def split: sum.splits)
next
  have "get_weights C0 delays ''onehot'' \<noteq> Inl NotImplementedError"
    by (auto simp: get_weights_def Let_def bind_err_def split: sum.splits if_splits
             dest: abs_differences_error argmin_error)
  moreover have "get_weights C0 delays ''uniform'' \<noteq> Inl NotImplementedError"
    and "get_weights C0 delays ''euclidean'' \<noteq> Inl NotImplementedError"
    by (simp_all add: get_weights_def Let_def)
  moreover have "get_weights C0 delays attention = Inl NotImplementedError"
    if "attention \<noteq> ''uniform''" "attention \<noteq> ''onehot''" "attention \<noteq> ''euclidean''"
    using that by (simp add: get_weights_def)
  ultimately show "get_weights C0 delays attention = Inl NotImplementedError
      \<longleftrightarrow> attention \<noteq> ''uniform'' \<and> attention \<noteq> ''onehot'' \<and> attention \<noteq> ''euclidean''"
    by blast
qed

theorem unsupported_selector_witness:
  "get_delays 1 1 2 3 ''cubic'' = Inl NotImplementedError
   \<and> get_weights (Scalar 0) [0, 1] ''softmax'' = Inl NotImplementedError
   \<and> get_delays 1 1 2 3 ''uniform'' \<noteq> Inl NotImplementedError
   \<and> get_weights (Scalar 0) [0, 1] ''onehot'' \<noteq> Inl NotImplementedError"
  using unsupported_selector [of 1 1 2 3 "''cubic''" "Scalar 0" "[0, 1]" "''softmax''"]
    unsupported_selector [of 1 1 2 3 "''uniform''" "Scalar 0" "[0, 1]" "''onehot''"]
  by simp

section \<open>Claims about the wavefront model\<close>

text \<open>
  C4.  For every \<open>R > 0\<close>, \<open>v0 > 0\<close>, \<open>v1 > 0\<close> and every point with \<open>0 \<le> r < R\<close> and angle
  \<open>phi\<close>, \<^verbatim>\<open>wavefront_fourier\<close> applied to the coefficients of
  \<^verbatim>\<open>get_fourier_params(r, phi, R, v0, v1)\<close> and \<^verbatim>\<open>wavefront_real(R, r, phi, v0, v1)\<close> agree at
  \<open>theta = phi\<close>, where both are \<open>(1 - v0/v1) * (R + r)\<close>.
\<close>

theorem fourier_matches_real_at_broadside:
  assumes "0 < R" and "0 < v0" and "0 < v1" and "0 \<le> r" and "r < R"
  shows "\<exists>C0 C1 phi1 C2 phi2.
           get_fourier_params r phi R v0 v1 = Inr (C0, C1, phi1, C2, phi2)
         \<and> wavefront_real R r phi v0 v1 phi = Inr (wavefront_fourier C0 C1 phi1 C2 phi2 phi)
         \<and> wavefront_fourier C0 C1 phi1 C2 phi2 phi = (1 - v0 / v1) * (R + r)"
proof -
  let ?c = "1 - v0 / v1"
  let ?C0 = "?c * R * (1 - r\<^sup>2 / (4 * R\<^sup>2))"
  let ?C1 = "?c * r"
  let ?C2 = "?c * r\<^sup>2 / (4 * R)"
  have nz: "v1 \<noteq> 0" "R \<noteq> 0" using assms by simp_all
  have params: "get_fourier_params r phi R v0 v1 = Inr (?C0, ?C1, phi, ?C2, phi)"
    using nz by (simp add: get_fourier_params_def)
  have "R * (r\<^sup>2 / (4 * R\<^sup>2)) = r\<^sup>2 / (4 * R)"
    using nz by (simp add: power2_eq_square)
  then have "R * (1 - r\<^sup>2 / (4 * R\<^sup>2)) + r + r\<^sup>2 / (4 * R) = R + r"
    by (simp add: algebra_simps)
  then have "?c * (R * (1 - r\<^sup>2 / (4 * R\<^sup>2)) + r + r\<^sup>2 / (4 * R)) = ?c * (R + r)"
    by simp
  then have four: "wavefront_fourier ?C0 ?C1 phi ?C2 phi phi = ?c * (R + r)"
    by (simp add: wavefront_fourier_def algebra_simps)
  have "sqrt (R\<^sup>2) = R" using assms(1) by simp
  then have "wavefront_real R r phi v0 v1 phi = Inr (?c * (R + r))"
    using nz assms(5) by (simp add: wavefront_real_def torch_sqrt_def bind_err_def)
  then show ?thesis using params four by simp
qed

theorem fourier_matches_real_at_broadside_witness:
  "\<exists>C0 C1 phi1 C2 phi2.
           get_fourier_params 1 0 2 1 2 = Inr (C0, C1, phi1, C2, phi2)
         \<and> wavefront_real 2 1 0 1 2 0 = Inr (wavefront_fourier C0 C1 phi1 C2 phi2 0)
         \<and> wavefront_fourier C0 C1 phi1 C2 phi2 0 = (1 - 1 / 2) * (2 + 1)"
  using fourier_matches_real_at_broadside [of 2 1 2 1 0] by simp

text \<open>
  C10, as amended.  For every grid index pair \<open>(i, j)\<close>, every \<open>l\<close>, \<open>v0\<close> and every non-zero
  \<open>R\<close> and \<open>v1\<close>, \<^verbatim>\<open>get_r_C0\<close> returns the radius \<open>r\<close> of the mapped point and a non-negative
  \<open>C0 = max(0, E)\<close>, where \<open>E = (1 - v0/v1) * R * (1 - r^2/(4 R^2))\<close> is the \<open>C0\<close> of
  \<^verbatim>\<open>get_fourier_params\<close> at that radius; the two agree exactly when \<open>E \<ge> 0\<close>, and \<open>C0\<close> is 0
  otherwise: for example when \<open>r > 2R\<close> with \<open>R > 0\<close> and \<open>v0 < v1\<close>, \<open>v1 > 0\<close>, or when
  \<open>v0 > v1 > 0\<close> with \<open>R > 0\<close> and \<open>r \<le> 2R\<close>.
\<close>

theorem get_r_C0_clamp:
  assumes "v1 \<noteq> 0" and "R \<noteq> 0"
  shows "\<exists>r C0 E C1 C2.
           get_r_C0 i j R l v0 v1 = Inr (r, C0)
         \<and> r = sqrt ((real_of_int (j - 12) * l / 4)\<^sup>2 + (real_of_int (12 - i) * l / 4)\<^sup>2)
         \<and> get_fourier_params r phi R v0 v1 = Inr (E, C1, phi, C2, phi)
         \<and> 0 \<le> C0 \<and> C0 = max 0 E \<and> (C0 = E \<longleftrightarrow> 0 \<le> E) \<and> (E < 0 \<longrightarrow> C0 = 0)
         \<and> (0 < R \<and> 2 * R < r \<and> 0 < v1 \<and> v0 < v1 \<longrightarrow> C0 = 0)
         \<and> (0 < R \<and> r \<le> 2 * R \<and> 0 < v1 \<and> v1 < v0 \<longrightarrow> C0 = 0)"
proof -
  define r where "r = sqrt ((real_of_int (j - 12) * l / 4)\<^sup>2 + (real_of_int (12 - i) * l / 4)\<^sup>2)"
  define E where "E = (1 - v0 / v1) * R * (1 - r\<^sup>2 / (4 * R\<^sup>2))"
  have r0: "0 \<le> r" by (simp add: r_def)
  have res: "get_r_C0 i j R l v0 v1 = Inr (r, max 0 E)"
    using assms by (simp add: get_r_C0_def Let_def r_def E_def)
  have params: "get_fourier_params r phi R v0 v1
                  = Inr (E, (1 - v0 / v1) * r, phi, (1 - v0 / v1) * r\<^sup>2 / (4 * R), phi)"
    using assms by (simp add: get_fourier_params_def E_def)
  have far: "E \<le> 0" if "0 < R" "2 * R < r" "0 < v1" "v0 < v1"
  proof -
    have "(2 * R)\<^sup>2 < r\<^sup>2" using that by (intro power_strict_mono) simp_all
    then have "4 * R\<^sup>2 < r\<^sup>2" by (simp add: power_mult_distrib)
    then have "1 < r\<^sup>2 / (4 * R\<^sup>2)" using that(1) by (simp add: field_simps)
    then have a: "1 - r\<^sup>2 / (4 * R\<^sup>2) \<le> 0" by simp
    have "0 \<le> (1 - v0 / v1) * R" using that by simp
    then show ?thesis unfolding E_def using a by (rule mult_nonneg_nonpos)
  qed
  have near: "E \<le> 0" if "0 < R" "r \<le> 2 * R" "0 < v1" "v1 < v0"
  proof -
    have "r\<^sup>2 \<le> (2 * R)\<^sup>2" using that r0 by (intro power_mono) simp_all
    then have "r\<^sup>2 \<le> 4 * R\<^sup>2" by (simp add: power_mult_distrib)
    then have "r\<^sup>2 / (4 * R\<^sup>2) \<le> 1" using that(1) by (simp add: field_simps)
    then have a: "0 \<le> 1 - r\<^sup>2 / (4 * R\<^sup>2)" by simp
    have "(1 - v0 / v1) * R \<le> 0" using that by (simp add: mult_le_0_iff)
    then show ?thesis unfolding E_def using a by (rule mult_nonpos_nonneg)
  qed
  have "0 \<le> max 0 E" "max 0 E = E \<longleftrightarrow> 0 \<le> E" "E < 0 \<longrightarrow> max 0 E = 0"
    "0 < R \<and> 2 * R < r \<and> 0 < v1 \<and> v0 < v1 \<longrightarrow> max 0 E = 0"
    "0 < R \<and> r \<le> 2 * R \<and> 0 < v1 \<and> v1 < v0 \<longrightarrow> max 0 E = 0"
    using far near by (auto simp: max_def)
  then show ?thesis using res params r_def by blast
qed

theorem get_r_C0_clamp_witness:
  "\<exists>r C0 E C1 C2.
           get_r_C0 12 16 1 4 1 2 = Inr (r, C0)
         \<and> r = sqrt ((real_of_int (16 - 12) * 4 / 4)\<^sup>2 + (real_of_int (12 - 12) * 4 / 4)\<^sup>2)
         \<and> get_fourier_params r 0 1 1 2 = Inr (E, C1, 0, C2, 0)
         \<and> 0 \<le> C0 \<and> C0 = max 0 E \<and> (C0 = E \<longleftrightarrow> 0 \<le> E) \<and> (E < 0 \<longrightarrow> C0 = 0)
         \<and> ((0::real) < 1 \<and> 2 * 1 < r \<and> (0::real) < 2 \<and> (1::real) < 2 \<longrightarrow> C0 = 0)
         \<and> ((0::real) < 1 \<and> r \<le> 2 * 1 \<and> (0::real) < 2 \<and> (2::real) < 1 \<longrightarrow> C0 = 0)"
  using get_r_C0_clamp [of 2 1 12 16 4 1 0] by simp

text \<open>
  C10 as stated has \<open>C0\<close> clamped to 0 whenever \<open>v0 > v1\<close>.  At \<open>i = 12\<close>, \<open>j = 16\<close>, \<open>R = 1\<close>,
  \<open>l = 4\<close>, \<open>v0 = 2\<close>, \<open>v1 = 1\<close> the point has \<open>r = 4 > 2R\<close>, so both factors are negative and
  the function returns \<open>C0 = 3\<close>.
\<close>

theorem get_r_C0_not_clamped:
  "(1::real) < 2 \<and> get_r_C0 12 16 1 4 2 1 = Inr (4, 3)"
  by (simp add: get_r_C0_def Let_def)

section \<open>Claims about the weight combiner\<close>

lemma sum3_singletons: "sum3 (map (\<lambda>d. [[f d]]) ds) = sum_list (map f ds)"
  by (simp add: sum3_def comp_def)

lemma map3_singletons: "map3 g (map (\<lambda>d. [[f d]]) ds) = map (\<lambda>d. [[g (f d)]]) ds"
  by (simp add: map3_def)

lemma delay_axis_sum_singletons:
  "delay_axis_sum (map (\<lambda>d. [[f d]]) ds) 0 0 = sum_list (map f ds)"
  by (simp add: delay_axis_sum_def comp_def)

lemma sum_list_scaled:
  fixes f :: "real \<Rightarrow> real"
  shows "sum_list (map (\<lambda>d. f d / a * b) ds) = sum_list (map f ds) / a * b"
  by (induction ds) (simp_all add: add_divide_distrib distrib_right)

lemma sum_list_exp_pos:
  fixes g :: "real \<Rightarrow> real"
  assumes "ds \<noteq> []"
  shows "0 < sum_list (map (\<lambda>d. exp (g d)) ds)"
  using assms
proof (induction ds)
  case Nil
  then show ?case by simp
next
  case (Cons d ds)
  have "0 \<le> sum_list (map (\<lambda>d. exp (g d)) ds)" by (rule sum_list_nonneg) auto
  moreover have "0 < exp (g d)" by simp
  ultimately have "0 < exp (g d) + sum_list (map (\<lambda>d. exp (g d)) ds)"
    by (rule add_pos_nonneg [rotated])
  then show ?case by simp
qed

lemma float_max_ge: "2 ^ 1023 \<le> float_max"
  by (simp add: float_max_def)

lemma float_max_less: "float_max < 2 ^ 1024"
proof -
  have "(0 :: real) < 2 ^ 971" by (rule zero_less_power) simp
  then show ?thesis unfolding float_max_def by linarith
qed

lemma power_chain:
  fixes a b :: real
  assumes "0 \<le> a" and "a ^ m \<le> b ^ k"
  shows "a ^ (m * n) \<le> b ^ (k * n)"
proof -
  have "0 \<le> a ^ m" using assms(1) by simp
  then have "(a ^ m) ^ n \<le> (b ^ k) ^ n" using assms(2) by (intro power_mono)
  then show ?thesis by (simp only: power_mult)
qed

text \<open>
  Squared distances up to 600 among at most a million delays stay clear of the overflow,
  and one squared distance of 900 does not: \<open>C0 = 0\<close> with the delays 0 and 30 gives
  \<^verbatim>\<open>nan\<close> weights.
\<close>

lemma exp_bounded_by_power:
  assumes "x \<le> real n"
  shows "exp x \<le> 3 ^ n"
proof -
  have "exp x \<le> exp (real n * 1)" using assms by simp
  also have "\<dots> = exp 1 ^ n" by (rule exp_of_nat_mult)
  also have "\<dots> \<le> 3 ^ n" using exp_le by (intro power_mono) simp_all
  finally show ?thesis .
qed

lemma sum_list_bounded:
  fixes f :: "real \<Rightarrow> real"
  assumes "\<forall>d \<in> set ds. f d \<le> b"
  shows "sum_list (map f ds) \<le> real (length ds) * b"
  using assms by (induction ds) (simp_all add: distrib_right)

lemma no_overflow_sufficient:
  assumes "\<forall>d \<in> set delays. (d - c)\<^sup>2 \<le> real n" and "n \<le> 600"
    and "length delays \<le> 1000000"
  shows "sum_list (map (\<lambda>d. exp ((d - c)\<^sup>2)) delays) \<le> float_max"
proof -
  have "(3 :: real) ^ n \<le> 3 ^ (5 * 120)" using assms(2) by (intro power_increasing) simp_all
  also have "\<dots> \<le> 2 ^ (8 * 120)" by (rule power_chain) simp_all
  finally have pw: "(3 :: real) ^ n \<le> 2 ^ (8 * 120)" .
  have "\<forall>d \<in> set delays. exp ((d - c)\<^sup>2) \<le> 3 ^ n"
    using assms(1) exp_bounded_by_power by blast
  then have "sum_list (map (\<lambda>d. exp ((d - c)\<^sup>2)) delays) \<le> real (length delays) * 3 ^ n"
    by (rule sum_list_bounded)
  also have "\<dots> \<le> 2 ^ 20 * 2 ^ (8 * 120)"
  proof (rule mult_mono)
    show "real (length delays) \<le> 2 ^ 20" using assms(3) by simp
    show "(3 :: real) ^ n \<le> 2 ^ (8 * 120)" by (rule pw)
  qed simp_all
  also have "\<dots> = (2 :: real) ^ (20 + 8 * 120)" by (rule power_add [symmetric])
  also have "\<dots> \<le> 2 ^ 1023" by (rule power_increasing) simp_all
  also have "\<dots> \<le> float_max" by (rule float_max_ge)
  finally show ?thesis .
qed

lemma exp_900_overflows: "float_max < exp (real (4 * 225))"
proof -
  have e: "(5 / 2 :: real) \<le> exp 1"
    using exp_lower_Taylor_quadratic [of "1 :: real"] by simp
  have "float_max < 2 ^ 1024" by (rule float_max_less)
  also have "(2 :: real) ^ 1024 \<le> 2 ^ (5 * 225)" by (rule power_increasing) simp_all
  also have "(2 :: real) ^ (5 * 225) \<le> (5 / 2) ^ (4 * 225)"
    by (rule power_chain) (simp_all add: power_divide)
  also have "(5 / 2 :: real) ^ (4 * 225) \<le> exp 1 ^ (4 * 225)"
    using e by (intro power_mono) simp_all
  also have "exp (1 :: real) ^ (4 * 225) = exp (real (4 * 225) * 1)"
    by (rule exp_of_nat_mult [symmetric])
  finally show ?thesis by (simp only: mult_1_right)
qed

lemma euclidean_weights_overflow:
  "get_weights (Scalar 0) [0, 30] ''euclidean'' = Inl NonFinite"
proof -
  have "float_max < exp (real (4 * 225))" by (rule exp_900_overflows)
  moreover have "(0 :: real) < 1" by simp
  ultimately have "float_max < 1 + exp 900" by simp
  then show ?thesis
    by (simp add: get_weights_def Let_def euclidean_distance_def map3_def sum3_def)
qed

text \<open>
  C3, as amended.  For every scalar \<open>C0\<close> and every delay array for which the exponentials
  \<open>exp((delay - C0)^2)\<close> sum to no more than the largest finite double, \<^verbatim>\<open>get_weights\<close> with
  \<^verbatim>\<open>attention='euclidean'\<close> returns one weight per delay (shape \<open>[n_delays, 1, 1]\<close>); every
  weight is strictly positive and the weights sum to \<open>n_delays\<close> along the delay axis.
\<close>

theorem euclidean_weights_scalar:
  assumes "sum_list (map (\<lambda>d. exp ((d - c)\<^sup>2)) delays) \<le> float_max"
  shows "\<exists>w. get_weights (Scalar c) delays ''euclidean'' = Inr w
       \<and> length w = length delays
       \<and> (\<forall>k < length delays. \<exists>x. w ! k = [[x]] \<and> 0 < x)
       \<and> delay_axis_sum w 0 0 = real (length delays)"
proof (cases "delays = []")
  case True
  have "\<not> float_max < 0" using float_max_ge by (simp add: not_less order_trans [of 0 "2 ^ 1023"])
  then show ?thesis using True
    by (simp add: get_weights_def euclidean_distance_def map3_def delay_axis_sum_def sum3_def)
next
  case False
  define S where "S = sum_list (map (\<lambda>d. exp ((d - c)\<^sup>2)) delays)"
  define n where "n = real (length delays)"
  define w where "w = map (\<lambda>d. [[exp ((d - c)\<^sup>2) / S / 1 * n]]) delays"
  have S: "0 < S" unfolding S_def using False by (rule sum_list_exp_pos)
  have fits: "\<not> float_max < S" using assms by (simp add: S_def)
  have n: "0 < n" using False by (simp add: n_def)
  have e: "map3 exp (euclidean_distance (Scalar c) delays) = map (\<lambda>d. [[exp ((d - c)\<^sup>2)]]) delays"
    by (simp add: euclidean_distance_def map3_singletons)
  have total: "sum3 (map (\<lambda>d. [[exp ((d - c)\<^sup>2)]]) delays) = S"
    by (simp add: sum3_singletons S_def)
  have weights: "map3 (\<lambda>e. e / S) (map (\<lambda>d. [[exp ((d - c)\<^sup>2)]]) delays)
                   = map (\<lambda>d. [[exp ((d - c)\<^sup>2) / S]]) delays"
    by (rule map3_singletons)
  have "sum_list (map (\<lambda>d. exp ((d - c)\<^sup>2) / S * 1) delays) = S / S * 1"
    unfolding S_def by (rule sum_list_scaled)
  then have one: "sum3 (map (\<lambda>d. [[exp ((d - c)\<^sup>2) / S]]) delays) = 1"
    using S by (simp add: sum3_singletons)
  have res: "get_weights (Scalar c) delays ''euclidean'' = Inr w"
    by (simp add: get_weights_def Let_def e total fits weights one map3_singletons w_def n_def)
  have len: "length w = length delays" by (simp add: w_def)
  have pos: "\<exists>x. w ! k = [[x]] \<and> 0 < x" if "k < length delays" for k
    using that S n by (simp add: w_def)
  have "sum_list (map (\<lambda>d. exp ((d - c)\<^sup>2) / S * n) delays) = S / S * n"
    unfolding S_def by (rule sum_list_scaled)
  then have "delay_axis_sum w 0 0 = n"
    using S by (simp add: w_def delay_axis_sum_singletons)
  then show ?thesis using res len pos n_def by blast
qed

theorem euclidean_weights_scalar_witness:
  "sum_list (map (\<lambda>d. exp ((d - 0)\<^sup>2)) [0, 1 :: real]) \<le> float_max
   \<and> (\<exists>w. get_weights (Scalar 0) [0, 1] ''euclidean'' = Inr w
       \<and> length w = length [0, 1 :: real]
       \<and> (\<forall>k < length [0, 1 :: real]. \<exists>x. w ! k = [[x]] \<and> 0 < x)
       \<and> delay_axis_sum w 0 0 = real (length [0, 1 :: real]))"
proof -
  have "\<forall>d \<in> set [0, 1 :: real]. (d - 0)\<^sup>2 \<le> real 1" by simp
  moreover have "(1 :: nat) \<le> 600" by simp
  moreover have "length [0, 1 :: real] \<le> 1000000" by simp
  ultimately have h: "sum_list (map (\<lambda>d. exp ((d - 0)\<^sup>2)) [0, 1 :: real]) \<le> float_max"
    by (rule no_overflow_sufficient)
  show ?thesis using h euclidean_weights_scalar [OF h] by blast
qed

text \<open>
  C3 as stated includes a per-pixel field.  Both calls of \<^verbatim>\<open>.sum()\<close> add up the whole
  array, so for the field \<open>[[0, 0]]\<close> of shape \<open>[1, 2]\<close> and the single delay 0 each of the two
  pixels gets the weight \<open>1/2\<close>, not \<open>n_delays = 1\<close>.
\<close>

theorem euclidean_weights_field_counterexample:
  "get_weights (Field [[0, 0]]) [0] ''euclidean'' = Inr [[[1 / 2, 1 / 2]]]
   \<and> delay_axis_sum [[[1 / 2, 1 / 2]]] 0 0 \<noteq> real (length [0 :: real])"
  by (simp add: get_weights_def Let_def euclidean_distance_def map3_def sum3_def delay_axis_sum_def
      float_max_def)

text \<open>\<^verbatim>\<open>np.argmin\<close> returns the first index at which the minimum is attained.\<close>

lemma argmin_from_spec:
  assumes "best < length ys" and "v = ys ! best" and "\<forall>k < length ys. v \<le> ys ! k"
    and "\<forall>k < best. v < ys ! k" and "i = length ys"
  shows "argmin_from xs i best v < length (ys @ xs)
       \<and> (\<forall>k < length (ys @ xs). (ys @ xs) ! argmin_from xs i best v \<le> (ys @ xs) ! k)
       \<and> (\<forall>k < argmin_from xs i best v. (ys @ xs) ! argmin_from xs i best v < (ys @ xs) ! k)"
  using assms
proof (induction xs arbitrary: ys i best v)
  case Nil
  then show ?case by simp
next
  case (Cons x xs)
  show ?case
  proof (cases "x < v")
    case True
    have a: "i < length (ys @ [x])" using Cons.prems(5) by simp
    have b: "x = (ys @ [x]) ! i" using Cons.prems(5) by simp
    have c: "\<forall>k < length (ys @ [x]). x \<le> (ys @ [x]) ! k"
    proof (intro allI impI)
      fix k assume "k < length (ys @ [x])"
      then consider "k < length ys" | "k = length ys" by fastforce
      then show "x \<le> (ys @ [x]) ! k"
      proof cases
        case 1
        then have "v \<le> ys ! k" using Cons.prems(3) by simp
        then show ?thesis using True 1 by (simp add: nth_append)
      next
        case 2
        then show ?thesis by simp
      qed
    qed
    have d: "\<forall>k < i. x < (ys @ [x]) ! k"
    proof (intro allI impI)
      fix k assume k: "k < i"
      then have "v \<le> ys ! k" using Cons.prems(3,5) by simp
      then show "x < (ys @ [x]) ! k" using True k Cons.prems(5) by (simp add: nth_append)
    qed
    have e: "Suc i = length (ys @ [x])" using Cons.prems(5) by simp
    show ?thesis using Cons.IH [OF a b c d e] True by simp
  next
    case False
    have a: "best < length (ys @ [x])" using Cons.prems(1) by simp
    have b: "v = (ys @ [x]) ! best" using Cons.prems(1,2) by (simp add: nth_append)
    have c: "\<forall>k < length (ys @ [x]). v \<le> (ys @ [x]) ! k"
    proof (intro allI impI)
      fix k assume "k < length (ys @ [x])"
      then consider "k < length ys" | "k = length ys" by fastforce
      then show "v \<le> (ys @ [x]) ! k"
      proof cases
        case 1
        then show ?thesis using Cons.prems(3) by (simp add: nth_append)
      next
        case 2
        then show ?thesis using False by simp
      qed
    qed
    have d: "\<forall>k < best. v < (ys @ [x]) ! k"
      using Cons.prems(1,4) by (simp add: nth_append)
    have e: "Suc i = length (ys @ [x])" using Cons.prems(5) by simp
    show ?thesis using Cons.IH [OF a b c d e] False by simp
  qed
qed

lemma argmin_spec:
  assumes "xs \<noteq> []"
  shows "\<exists>idx. argmin xs = Inr idx \<and> idx < length xs
             \<and> (\<forall>k < length xs. xs ! idx \<le> xs ! k) \<and> (\<forall>k < idx. xs ! idx < xs ! k)"
proof -
  obtain x rest where xs: "xs = x # rest" using assms by (cases xs) auto
  have "argmin_from rest 1 0 x < length ([x] @ rest)
       \<and> (\<forall>k < length ([x] @ rest). ([x] @ rest) ! argmin_from rest 1 0 x \<le> ([x] @ rest) ! k)
       \<and> (\<forall>k < argmin_from rest 1 0 x. ([x] @ rest) ! argmin_from rest 1 0 x < ([x] @ rest) ! k)"
    by (rule argmin_from_spec) simp_all
  then show ?thesis using xs by (simp add: argmin_def)
qed

text \<open>
  C8.  For every scalar \<open>C0\<close> and every non-empty delay array, \<^verbatim>\<open>get_weights\<close> with
  \<^verbatim>\<open>attention='onehot'\<close> returns weights of which exactly the one at index \<open>idx\<close> is 1 and
  all others are 0, where \<open>idx\<close> minimises \<open>|delays[k] - C0|\<close> and is the first index that
  does.
\<close>

theorem onehot_weights_scalar:
  assumes "delays \<noteq> []"
  shows "\<exists>idx w. get_weights (Scalar c) delays ''onehot'' = Inr w
           \<and> idx < length delays
           \<and> (\<forall>k < length delays. \<bar>delays ! idx - c\<bar> \<le> \<bar>delays ! k - c\<bar>)
           \<and> (\<forall>k < idx. \<bar>delays ! idx - c\<bar> < \<bar>delays ! k - c\<bar>)
           \<and> length w = length delays
           \<and> (\<forall>k < length delays. w ! k = (if k = idx then [[1]] else [[0]]))"
proof -
  let ?ds = "map (\<lambda>d. \<bar>d - c\<bar>) delays"
  have "?ds \<noteq> []" using assms by simp
  then obtain idx where idx: "argmin ?ds = Inr idx" "idx < length ?ds"
    "\<forall>k < length ?ds. ?ds ! idx \<le> ?ds ! k" "\<forall>k < idx. ?ds ! idx < ?ds ! k"
    using argmin_spec by blast
  let ?w = "(replicate (length delays) [[0::real]])[idx := [[1]]]"
  have res: "get_weights (Scalar c) delays ''onehot'' = Inr ?w"
    using idx(1,2) by (simp add: get_weights_def Let_def abs_differences_def bind_err_def)
  have lt: "idx < length delays" using idx(2) by simp
  have mn: "\<forall>k < length delays. \<bar>delays ! idx - c\<bar> \<le> \<bar>delays ! k - c\<bar>"
    using idx(3) lt by simp
  have fst: "\<forall>k < idx. \<bar>delays ! idx - c\<bar> < \<bar>delays ! k - c\<bar>"
    using idx(4) lt by simp
  have len: "length ?w = length delays" by simp
  have ent: "\<forall>k < length delays. ?w ! k = (if k = idx then [[1]] else [[0]])"
    by (simp add: nth_list_update)
  show ?thesis using res lt mn fst len ent by blast
qed

theorem onehot_weights_scalar_witness:
  "\<exists>idx w. get_weights (Scalar 2) [0, 1, 3, 5] ''onehot'' = Inr w
           \<and> idx < length [0, 1, 3, 5 :: real]
           \<and> (\<forall>k < length [0, 1, 3, 5 :: real]. \<bar>[0, 1, 3, 5] ! idx - 2\<bar> \<le> \<bar>[0, 1, 3, 5] ! k - (2 :: real)\<bar>)
           \<and> (\<forall>k < idx. \<bar>[0, 1, 3, 5] ! idx - 2\<bar> < \<bar>[0, 1, 3, 5] ! k - (2 :: real)\<bar>)
           \<and> length w = length [0, 1, 3, 5 :: real]
           \<and> (\<forall>k < length [0, 1, 3, 5 :: real]. w ! k = (if k = idx then [[1]] else [[0]]))"
  using onehot_weights_scalar [of "[0, 1, 3, 5]" 2] by simp

section \<open>Claims about the beamformer\<close>

text \<open>
  With a single transducer the ring has its one element at angle \<open>2 pi\<close>, that is at
  \<open>(0, -R_ring)\<close>.
\<close>

lemma single_transducer_position:
  "x_transducer R (Suc 0) 0 = 0" "y_transducer R (Suc 0) 0 = - R"
  by (simp_all add: x_transducer_def y_transducer_def)

lemma distance_origin: "distance_to_transducer 1 (Suc 0) 0 0 0 (Sc 0) = Inr [1]"
  by (simp add: distance_to_transducer_def single_transducer_position)

lemma distance_above_origin: "distance_to_transducer 1 (Suc 0) 0 1 0 (Sc 0) = Inr [2]"
  by (simp add: distance_to_transducer_def single_transducer_position)

text \<open>
  Place \<open>k * T + j\<close> of the buffer of a sinogram with rows of length \<open>T\<close> holds sample \<open>j\<close>
  of row \<open>k\<close>; the place after the last sample of a row is the first sample of the next
  row or, for the last row, the float that follows the buffer.
\<close>

lemma length_concat_rows:
  assumes "\<forall>row \<in> set a. length row = T"
  shows "length (concat a) = length a * T"
  using assms by (induction a) simp_all

lemma nth_concat_rows:
  assumes "\<forall>row \<in> set a. length row = T" and "k < length a" and "j < T"
  shows "concat a ! (k * T + j) = a ! k ! j"
  using assms
proof (induction a arbitrary: k)
  case Nil
  then show ?case by simp
next
  case (Cons row a)
  have len: "length row = T" using Cons.prems(1) by simp
  show ?case
  proof (cases k)
    case 0
    then show ?thesis using len Cons.prems(3) by (simp add: nth_append)
  next
    case (Suc m)
    have "concat a ! (m * T + j) = a ! m ! j"
      using Cons.prems Suc by (intro Cons.IH) simp_all
    moreover have "(row @ concat a) ! (length row + (m * T + j)) = concat a ! (m * T + j)"
      by (rule nth_append_length_plus)
    ultimately show ?thesis using Suc len by (simp add: add.assoc)
  qed
qed

lemma rectangular_rows: "rectangular a \<Longrightarrow> \<forall>row \<in> set a. length row = shape1 a"
  by (simp add: rectangular_def list_all_iff)

lemma read2_inside:
  assumes "rectangular a" and "k < length a" and "j < shape1 a"
  shows "read2 beyond a k j = a ! k ! j"
proof -
  let ?T = "shape1 a"
  have rows: "\<forall>row \<in> set a. length row = ?T" using assms(1) by (rule rectangular_rows)
  have "k * ?T + j < k * ?T + ?T" using assms(3) by simp
  also have "\<dots> = Suc k * ?T" by simp
  also have "\<dots> \<le> length a * ?T" using assms(2) by (intro mult_right_mono) simp_all
  finally have "k * ?T + j < length (concat a)" using length_concat_rows [OF rows] by simp
  then show ?thesis using nth_concat_rows [OF rows assms(2,3)] by (simp add: read2_def Let_def)
qed

lemma read2_row_end:
  assumes "rectangular a" and "k < length a" and "0 < shape1 a"
  shows "read2 beyond a k (shape1 a)
           = (if Suc k < length a then a ! Suc k ! 0 else beyond PaSignal 0)"
proof (cases "Suc k < length a")
  case True
  have "read2 beyond a (Suc k) 0 = a ! Suc k ! 0" using assms(1) True assms(3) by (rule read2_inside)
  moreover have "read2 beyond a k (shape1 a) = read2 beyond a (Suc k) 0"
    by (simp add: read2_def Let_def add.commute)
  ultimately show ?thesis using True by simp
next
  case False
  then have k: "Suc k = length a" using assms(2) by simp
  have rows: "\<forall>row \<in> set a. length row = shape1 a" using assms(1) by (rule rectangular_rows)
  have "length (concat a) = Suc k * shape1 a" using length_concat_rows [OF rows] k by simp
  then show ?thesis using False by (simp add: read2_def Let_def add.commute)
qed

text \<open>
  The three outcomes of the guarded read of lines 70 to 74: an index that is not positive
  or lies above \<open>num_samples\<close> contributes zero, an index from 1 to \<open>num_samples - 1\<close> reads
  its sample, and the index \<open>num_samples\<close> itself passes the guard and reads past the end
  of row \<open>k\<close>.
\<close>

lemma contribution_cases:
  assumes "rectangular pa" and "k < length pa" and "k < length dists" and "v0 * T_sample \<noteq> 0"
  shows "contribution beyond T_sample v0 pa dists k =
           Inr (if sample_index (dists ! k) v0 T_sample \<le> 0
                   \<or> int (shape1 pa) < sample_index (dists ! k) v0 T_sample then 0
                else if sample_index (dists ! k) v0 T_sample = int (shape1 pa)
                then (if Suc k < length pa then pa ! Suc k ! 0 else beyond PaSignal 0)
                else pa ! k ! nat (sample_index (dists ! k) v0 T_sample))"
proof -
  let ?id = "sample_index (dists ! k) v0 T_sample"
  consider "?id \<le> 0 \<or> int (shape1 pa) < ?id" | "0 < ?id" "?id = int (shape1 pa)"
    | "0 < ?id" "?id < int (shape1 pa)" by linarith
  then show ?thesis
  proof cases
    case 1
    then show ?thesis using assms(3,4) by (auto simp: contribution_def Let_def read1_def)
  next
    case 2
    then have "0 < shape1 pa" and "nat ?id = shape1 pa" by simp_all
    then show ?thesis
      using 2 assms(3,4) read2_row_end [OF assms(1,2), of beyond]
      by (simp add: contribution_def Let_def read1_def)
  next
    case 3
    then have "nat ?id < shape1 pa" by simp
    then have "read2 beyond pa k (nat ?id) = pa ! k ! nat ?id"
      using assms(1,2) by (intro read2_inside)
    then show ?thesis using 3 assms(3,4) by (simp add: contribution_def Let_def read1_def)
  qed
qed

text \<open>
  C2.  The claim is that every read under the guard of line 71 is inside row \<open>k\<close> of the
  sinogram.  The guard is \<^verbatim>\<open>id > 0 and id <= pa_signal.shape[1]\<close>, so it admits
  \<open>id = num_samples\<close>: with one transducer, one sample, \<open>R_ring = v0 = T_sample = 1\<close> and
  the pixel at the origin the index is 1 and the read \<^verbatim>\<open>pa_signal[0, 1]\<close> is past the end of
  the row.  The pixel returned is not the sample 5 and not zero: it is the float that
  follows the buffer of the sinogram in memory.
\<close>

theorem guard_admits_index_num_samples:
  "sample_index 1 1 1 = int (shape1 [[5]])
   \<and> contribution beyond 1 1 [[5]] [1] 0 = Inr (beyond PaSignal 0)
   \<and> delay_and_sum beyond 1 1 1 [[5]] [0] [0] 0 (Sc 0) = Inr [[beyond PaSignal 0]]"
  by (simp add: delay_and_sum_def pixel_step_def distance_origin bind_err_def contribution_def
      sample_index_def shape1_def read1_def read2_def write2_def rows_of_def mean_def)

text \<open>
  C1.  The claim is an image of shape \<open>(len(y_vec), len(x_vec))\<close>, also when the two lengths
  differ.  The source allocates \<^verbatim>\<open>np.zeros((len(x_vec), len(y_vec)))\<close> and writes
  \<^verbatim>\<open>Image[t, s]\<close> with \<open>t < len(y_vec)\<close> and \<open>s < len(x_vec)\<close>: with one \<open>x\<close> and two \<open>y\<close>
  coordinates the image returned has one row of two pixels, not two rows of one, and the
  write \<^verbatim>\<open>Image[1, 0]\<close> goes past the end of its buffer; with two \<open>x\<close> and no \<open>y\<close>
  coordinates the result has two (empty) rows.
\<close>

theorem image_allocated_transposed:
  "delay_and_sum beyond 1 1 1 [[0, 0, 0]] [0] [0, 1] 0 (Sc 0) = Inr [[0, 0]]
   \<and> delay_and_sum beyond 1 1 1 [[0, 0, 0]] [0, 1] [] 0 (Sc 0) = Inr [[], []]"
  by (simp add: delay_and_sum_def pixel_step_def distance_origin distance_above_origin
      bind_err_def contribution_def sample_index_def shape1_def read1_def read2_def write2_def
      rows_of_def mean_def upt_rec [of 0] upt_rec [of "Suc 0"])

text \<open>
  Facts about the loops: an invariant of the body holds of the state a loop returns, and
  a loop whose body always returns does so too.
\<close>

lemma for_each_invariant:
  assumes "for_each xs body st = Inr st'" and "P st"
    and "\<And>x s s'. x \<in> set xs \<Longrightarrow> P s \<Longrightarrow> body x s = Inr s' \<Longrightarrow> P s'"
  shows "P st'"
  using assms
proof (induction xs arbitrary: st)
  case Nil
  then show ?case by simp
next
  case (Cons x xs)
  from Cons.prems(1) obtain s1 where s1: "body x st = Inr s1" "for_each xs body s1 = Inr st'"
    by (cases "body x st") auto
  have "x \<in> set (x # xs)" by simp
  then have p1: "P s1" using Cons.prems(2) s1(1) by (rule Cons.prems(3))
  have step: "P s'" if "y \<in> set xs" "P s" "body y s = Inr s'" for y s s'
  proof -
    have "y \<in> set (x # xs)" using that(1) by simp
    then show ?thesis using that(2,3) by (rule Cons.prems(3))
  qed
  show ?case using s1(2) p1 step by (rule Cons.IH)
qed

lemma for_each_total:
  assumes "\<And>x s. \<exists>s'. body x s = Inr s'"
  shows "\<exists>st'. for_each xs body st = Inr st'"
proof (induction xs arbitrary: st)
  case Nil
  then show ?case by simp
next
  case (Cons x xs)
  obtain s1 where "body x st = Inr s1" using assms by blast
  then show ?case using Cons.IH [of s1] by simp
qed

lemma bind_err_Inr:
  "bind_err m f = Inr y \<longleftrightarrow> (\<exists>x. m = Inr x \<and> f x = Inr y)"
  by (cases m) (simp_all add: bind_err_def)

text \<open>
  With a scalar \<^verbatim>\<open>ring_error\<close>, a sinogram of at least one transducer and a non-zero
  \<^verbatim>\<open>v0 * T_sample\<close> the call returns an image, for every grid; whatever it returns has the
  shape \<open>(len(x_vec), len(y_vec))\<close>.
\<close>

lemma pixel_step_returns:
  assumes "v0 * T_sample \<noteq> 0"
  shows "\<exists>st'. pixel_step beyond R_ring T_sample v0 pa x_vec y_vec d_delay (Sc e) s t st = Inr st'"
proof -
  obtain dists where d: "distance_to_transducer R_ring (length pa) (x_vec ! s) (y_vec ! t)
                           d_delay (Sc e) = Inr dists"
    by (simp add: distance_to_transducer_def)
  let ?kb = "\<lambda>k rd. bind_err (contribution beyond T_sample v0 pa dists k) (\<lambda>v. Inr (rd[k := v]))"
  have "\<exists>rd'. ?kb k rd = Inr rd'" for k rd
    using assms by (simp add: contribution_def Let_def bind_err_def)
  then have "\<exists>rd. for_each [0..<length pa] ?kb (snd st) = Inr rd" by (rule for_each_total)
  then obtain rd where rd: "for_each [0..<length pa] ?kb (snd st) = Inr rd" ..
  have "pixel_step beyond R_ring T_sample v0 pa x_vec y_vec d_delay (Sc e) s t st
          = Inr (write2 (fst st) (length y_vec) t s (mean rd), rd)"
    using d rd by (simp add: pixel_step_def bind_err_def)
  then show ?thesis by (rule exI)
qed

lemma delay_and_sum_returns:
  assumes "pa_signal \<noteq> []" and "v0 * T_sample \<noteq> 0"
  shows "\<exists>img. delay_and_sum beyond R_ring T_sample v0 pa_signal x_vec y_vec d_delay (Sc e)
                  = Inr img"
proof -
  let ?body = "pixel_step beyond R_ring T_sample v0 pa_signal x_vec y_vec d_delay (Sc e)"
  let ?row = "\<lambda>s. for_each [0..<length y_vec] (?body s)"
  have cell: "\<exists>st'. ?body s t st = Inr st'" for s t st
    using assms(2) by (rule pixel_step_returns)
  have inner: "\<exists>s'. ?row s st = Inr s'" for s st
    using cell by (rule for_each_total)
  have "\<exists>st'. for_each [0..<length x_vec] ?row
                 (replicate (length x_vec * length y_vec) 0, replicate (length pa_signal) 0)
               = Inr st'"
    using inner by (rule for_each_total)
  then obtain st' where st': "for_each [0..<length x_vec] ?row
                 (replicate (length x_vec * length y_vec) 0, replicate (length pa_signal) 0)
               = Inr st'" ..
  have "delay_and_sum beyond R_ring T_sample v0 pa_signal x_vec y_vec d_delay (Sc e)
          = Inr (rows_of (length x_vec) (length y_vec) (fst st'))"
    using assms(1) unfolding delay_and_sum_def Let_def st' by (simp add: bind_err_def)
  then show ?thesis by (rule exI)
qed

lemma pixel_step_buffer_length:
  assumes "pixel_step beyond R_ring T_sample v0 pa x_vec y_vec d_delay ring_error s t st = Inr st'"
  shows "length (fst st') = length (fst st)"
  using assms by (auto simp: pixel_step_def bind_err_Inr write2_def)

lemma rows_of_shape:
  assumes "length buf = H * W"
  shows "length (rows_of H W buf) = H \<and> (\<forall>row \<in> set (rows_of H W buf). length row = W)"
proof -
  have "length (take W (drop (i * W) buf)) = W" if "i < H" for i
  proof -
    have "Suc i * W \<le> H * W" using that by (intro mult_right_mono) simp_all
    then show ?thesis using assms by simp
  qed
  then show ?thesis by (auto simp: rows_of_def)
qed

lemma delay_and_sum_shape:
  assumes "delay_and_sum beyond R_ring T_sample v0 pa_signal x_vec y_vec d_delay ring_error
             = Inr img"
  shows "length img = length x_vec \<and> (\<forall>row \<in> set img. length row = length y_vec)"
proof -
  let ?H = "length x_vec" and ?W = "length y_vec"
  let ?body = "pixel_step beyond R_ring T_sample v0 pa_signal x_vec y_vec d_delay ring_error"
  let ?P = "\<lambda>st :: real list \<times> real list. length (fst st) = ?H * ?W"
  from assms obtain st where
    loop: "for_each [0..<?H] (\<lambda>s. for_each [0..<?W] (?body s))
             (replicate (?H * ?W) 0, replicate (length pa_signal) 0) = Inr st"
    and img: "img = rows_of ?H ?W (fst st)"
    by (auto simp: delay_and_sum_def Let_def bind_err_Inr split: if_splits)
  have inner: "?P s2" if "?P s1" "for_each [0..<?W] (?body s) s1 = Inr s2" for s s1 s2
    using that(2,1)
  proof (rule for_each_invariant)
    fix t u u' assume "?P u" "?body s t u = Inr u'"
    then show "?P u'" using pixel_step_buffer_length by fastforce
  qed
  have "?P st"
    using loop
  proof (rule for_each_invariant)
    show "?P (replicate (?H * ?W) 0, replicate (length pa_signal) 0)" by simp
  next
    fix s u u' assume "?P u" "for_each [0..<?W] (?body s) u = Inr u'"
    then show "?P u'" by (rule inner)
  qed
  then show ?thesis unfolding img by (rule rows_of_shape)
qed

text \<open>
  For a sinogram of zeros every pixel returned is zero, provided the float that follows
  the buffer of the sinogram is zero as well.
\<close>

lemma zero_entries:
  assumes "zero_signal a" and "k < length a" and "j < length (a ! k)"
  shows "a ! k ! j = 0"
proof -
  have "a ! k \<in> set a" using assms(2) by simp
  moreover have "a ! k ! j \<in> set (a ! k)" using assms(3) by simp
  ultimately show ?thesis using assms(1) by (auto simp: zero_signal_def list_all_iff)
qed

lemma contribution_zero:
  assumes "rectangular pa" and "zero_signal pa" and "beyond PaSignal 0 = 0" and "k < length pa"
    and "contribution beyond T_sample v0 pa dists k = Inr v"
  shows "v = 0"
proof -
  let ?id = "sample_index (read1 beyond dists k) v0 T_sample"
  have rows: "\<forall>row \<in> set pa. length row = shape1 pa" using assms(1) by (rule rectangular_rows)
  consider "\<not> (0 < ?id \<and> ?id \<le> int (shape1 pa))" | "0 < ?id" "?id = int (shape1 pa)"
    | "0 < ?id" "?id < int (shape1 pa)" by linarith
  then show ?thesis
  proof cases
    case 1
    then show ?thesis using assms(5) by (auto simp: contribution_def Let_def split: if_splits)
  next
    case 2
    then have T: "0 < shape1 pa" "nat ?id = shape1 pa" by simp_all
    have "read2 beyond pa k (shape1 pa) = 0"
    proof (cases "Suc k < length pa")
      case True
      then have "0 < length (pa ! Suc k)" using rows T(1) by simp
      then have "pa ! Suc k ! 0 = 0" using assms(2) True by (intro zero_entries)
      then show ?thesis using read2_row_end [OF assms(1,4) T(1), of beyond] True by simp
    next
      case False
      then show ?thesis using read2_row_end [OF assms(1,4) T(1), of beyond] assms(3) by simp
    qed
    then show ?thesis using assms(5) 2 T
      by (auto simp: contribution_def Let_def split: if_splits)
  next
    case 3
    then have j: "nat ?id < shape1 pa" by simp
    then have "nat ?id < length (pa ! k)" using rows assms(4) by simp
    then have "pa ! k ! nat ?id = 0" using assms(2,4) by (intro zero_entries)
    then have "read2 beyond pa k (nat ?id) = 0"
      using read2_inside [OF assms(1,4) j, of beyond] by simp
    then show ?thesis using assms(5) 3
      by (auto simp: contribution_def Let_def split: if_splits)
  qed
qed

lemma related_data_zero:
  assumes "rectangular pa" and "zero_signal pa" and "beyond PaSignal 0 = 0"
    and "for_each [0..<length pa]
           (\<lambda>k rd. bind_err (contribution beyond T_sample v0 pa dists k)
                      (\<lambda>v. Inr (rd[k := v]))) rd = Inr rd'"
    and "\<forall>x \<in> set rd. x = 0"
  shows "\<forall>x \<in> set rd'. x = 0"
  using assms(4,5)
proof (rule for_each_invariant)
  fix k and s s' :: "real list"
  assume k: "k \<in> set [0..<length pa]" and s: "\<forall>x \<in> set s. x = 0"
    and "bind_err (contribution beyond T_sample v0 pa dists k) (\<lambda>v. Inr (s[k := v])) = Inr s'"
  then obtain v where v: "contribution beyond T_sample v0 pa dists k = Inr v" "s' = s[k := v]"
    by (auto simp: bind_err_Inr)
  have "k < length pa" using k by simp
  with assms(1,2,3) have "v = 0" using v(1) by (rule contribution_zero)
  moreover have "set (s[k := v]) \<subseteq> insert v (set s)" by (rule set_update_subset_insert)
  ultimately show "\<forall>x \<in> set s'. x = 0" using s v(2) by auto
qed

lemma mean_zero:
  assumes "\<forall>x \<in> set xs. x = (0::real)"
  shows "mean xs = 0"
proof -
  have "sum_list xs = 0" using assms by (induction xs) simp_all
  then show ?thesis by (simp add: mean_def)
qed

lemma write2_zero:
  assumes "\<forall>x \<in> set buf. x = (0::real)"
  shows "\<forall>x \<in> set (write2 buf W t s 0). x = 0"
proof -
  have "set (buf[t * W + s := 0]) \<subseteq> insert 0 (set buf)" by (rule set_update_subset_insert)
  then show ?thesis using assms by (auto simp: write2_def)
qed

lemma pixel_step_zero:
  assumes "rectangular pa" and "zero_signal pa" and "beyond PaSignal 0 = 0"
    and "\<forall>x \<in> set (fst st). x = 0" and "\<forall>x \<in> set (snd st). x = 0"
    and "pixel_step beyond R_ring T_sample v0 pa x_vec y_vec d_delay ring_error s t st = Inr st'"
  shows "(\<forall>x \<in> set (fst st'). x = 0) \<and> (\<forall>x \<in> set (snd st'). x = 0)"
proof -
  from assms(6) obtain dists rd where
    rd: "for_each [0..<length pa] (\<lambda>k rd. bind_err (contribution beyond T_sample v0 pa dists k)
                                       (\<lambda>v. Inr (rd[k := v]))) (snd st) = Inr rd"
    and st': "st' = (write2 (fst st) (length y_vec) t s (mean rd), rd)"
    by (auto simp: pixel_step_def bind_err_Inr)
  have z: "\<forall>x \<in> set rd. x = 0" using assms(1,2,3) rd assms(5) by (rule related_data_zero)
  then have "mean rd = 0" by (rule mean_zero)
  then have "\<forall>x \<in> set (write2 (fst st) (length y_vec) t s (mean rd)). x = 0"
    using write2_zero [OF assms(4)] by simp
  then show ?thesis using z st' by simp
qed

lemma zero_sinogram_zero_image_unless_overrun:
  assumes "rectangular pa_signal" and "zero_signal pa_signal" and "beyond PaSignal 0 = 0"
    and "delay_and_sum beyond R_ring T_sample v0 pa_signal x_vec y_vec d_delay ring_error
           = Inr img"
  shows "\<forall>row \<in> set img. \<forall>v \<in> set row. v = 0"
proof -
  let ?H = "length x_vec" and ?W = "length y_vec"
  let ?body = "pixel_step beyond R_ring T_sample v0 pa_signal x_vec y_vec d_delay ring_error"
  let ?P = "\<lambda>st :: real list \<times> real list.
              (\<forall>x \<in> set (fst st). x = 0) \<and> (\<forall>x \<in> set (snd st). x = 0)"
  from assms(4) obtain st where
    loop: "for_each [0..<?H] (\<lambda>s. for_each [0..<?W] (?body s))
             (replicate (?H * ?W) 0, replicate (length pa_signal) 0) = Inr st"
    and img: "img = rows_of ?H ?W (fst st)"
    by (auto simp: delay_and_sum_def Let_def bind_err_Inr split: if_splits)
  have inner: "?P s2" if "?P s1" "for_each [0..<?W] (?body s) s1 = Inr s2" for s s1 s2
    using that(2,1)
  proof (rule for_each_invariant)
    fix t u u' assume "?P u" "?body s t u = Inr u'"
    then show "?P u'"
      using pixel_step_zero [of pa_signal beyond u, OF assms(1,2,3)] by blast
  qed
  have "?P st"
    using loop
  proof (rule for_each_invariant)
    show "?P (replicate (?H * ?W) 0, replicate (length pa_signal) 0)" by simp
  next
    fix s u u' assume "?P u" "for_each [0..<?W] (?body s) u = Inr u'"
    then show "?P u'" by (rule inner)
  qed
  then have buf: "\<forall>x \<in> set (fst st). x = 0" by simp
  show ?thesis
  proof (intro ballI)
    fix row v assume "row \<in> set img" "v \<in> set row"
    then obtain i where "v \<in> set (take ?W (drop (i * ?W) (fst st)))"
      unfolding img by (auto simp: rows_of_def)
    then have "v \<in> set (fst st)" by (meson in_set_takeD in_set_dropD)
    then show "v = 0" using buf by simp
  qed
qed

text \<open>
  C9.  The claim is that a sinogram of zeros gives an image of zeros for every geometry.
  With one transducer, one sample that is zero, \<open>R_ring = v0 = T_sample = 1\<close> and the pixel
  at the origin, the index is \<open>num_samples\<close>, the guard of line 71 admits it, and the pixel is
  the float that follows the buffer in memory: 9 when that float is 9.
\<close>

theorem zero_sinogram_nonzero_pixel:
  "rectangular [[0]] \<and> zero_signal [[0]]
   \<and> delay_and_sum beyond 1 1 1 [[0]] [0] [0] 0 (Sc 0) = Inr [[beyond PaSignal 0]]
   \<and> delay_and_sum (\<lambda>b i. 9) 1 1 1 [[0]] [0] [0] 0 (Sc 0) = Inr [[9]]"
  by (simp add: delay_and_sum_def pixel_step_def distance_origin bind_err_def contribution_def
      sample_index_def shape1_def read1_def read2_def write2_def rows_of_def mean_def
      rectangular_def zero_signal_def)

end
